theory Spec2Isabelle
  imports Main "HOL-Library.Word"
begin

section \<open>i3lock: the lock state machine of \<^verbatim>\<open>i3lock.c\<close>\<close>

text \<open>
  The development embeds the parts of \<^verbatim>\<open>src/i3lock.c\<close> that drive the lock: the two
  grab-acquisition loops, the event loop with its key dispatch over the global
  \<^verbatim>\<open>passwd\<close> buffer, the teardown, and the PAM conversation callback. Calls into Xlib,
  PAM and libc are effects: each function returns the list of calls it made, in
  order, next to the new program state, and what the outside world answers is read
  from a \<open>world\<close> record.
\<close>

subsection \<open>Bytes, key symbols and the library facts used by the code\<close>

type_synonym byte = "8 word"

text \<open>A \<^verbatim>\<open>KeySym\<close> is an unsigned long; the code only compares it and shifts keypad
  digits down, which never leaves the range, so it is a natural number here.\<close>

type_synonym keysym = nat

text \<open>Key symbol values of \<^verbatim>\<open>X11/keysymdef.h\<close>, which the source includes.\<close>

definition XK_BackSpace :: keysym where "XK_BackSpace = 0xFF08"
definition XK_Return :: keysym where "XK_Return = 0xFF0D"
definition XK_Escape :: keysym where "XK_Escape = 0xFF1B"
definition XK_Select :: keysym where "XK_Select = 0xFF60"
definition XK_Break :: keysym where "XK_Break = 0xFF6B"
definition XK_KP_Space :: keysym where "XK_KP_Space = 0xFF80"
definition XK_KP_Enter :: keysym where "XK_KP_Enter = 0xFF8D"
definition XK_KP_F1 :: keysym where "XK_KP_F1 = 0xFF91"
definition XK_KP_F4 :: keysym where "XK_KP_F4 = 0xFF94"
definition XK_KP_0 :: keysym where "XK_KP_0 = 0xFFB0"
definition XK_KP_9 :: keysym where "XK_KP_9 = 0xFFB9"
definition XK_KP_Equal :: keysym where "XK_KP_Equal = 0xFFBD"
definition XK_F1 :: keysym where "XK_F1 = 0xFFBE"
definition XK_F35 :: keysym where "XK_F35 = 0xFFE0"
definition XK_0 :: keysym where "XK_0 = 0x0030"

text \<open>The classification macros of \<^verbatim>\<open>X11/Xutil.h\<close>.\<close>

definition IsKeypadKey :: "keysym \<Rightarrow> bool" where
  "IsKeypadKey k = (XK_KP_Space \<le> k \<and> k \<le> XK_KP_Equal)"

definition IsPrivateKeypadKey :: "keysym \<Rightarrow> bool" where
  "IsPrivateKeypadKey k = (0x11000000 \<le> k \<and> k \<le> 0x1100FFFF)"

definition IsPFKey :: "keysym \<Rightarrow> bool" where
  "IsPFKey k = (XK_KP_F1 \<le> k \<and> k \<le> XK_KP_F4)"

definition IsFunctionKey :: "keysym \<Rightarrow> bool" where
  "IsFunctionKey k = (XK_F1 \<le> k \<and> k \<le> XK_F35)"

definition IsMiscFunctionKey :: "keysym \<Rightarrow> bool" where
  "IsMiscFunctionKey k = (XK_Select \<le> k \<and> k \<le> XK_Break)"

text \<open>\<^verbatim>\<open>iscntrl\<close> of libc in the "C" locale (the program never calls \<^verbatim>\<open>setlocale\<close>): the
  codes 0 to 31 and 127. The code passes \<^verbatim>\<open>(int) buf[0]\<close>, a signed char widened to
  int, so a byte from 0x80 on arrives as a negative number, which is no control
  character (where char is unsigned it arrives as 128 to 255, no control character
  either).\<close>

definition iscntrl :: "int \<Rightarrow> bool" where
  "iscntrl c = ((0 \<le> c \<and> c < 32) \<or> c = 127)"

text \<open>A C string read from a char array: the bytes before the first NUL.\<close>

definition c_string :: "byte list \<Rightarrow> byte list" where
  "c_string bs = takeWhile (\<lambda>b. b \<noteq> 0) bs"

text \<open>\<^verbatim>\<open>memcpy(dst + off, src, n)\<close> with \<open>n = length src\<close>, for a copy that stays inside \<open>dst\<close>
  (the only call is guarded by \<^verbatim>\<open>len + num < sizeof passwd\<close>).\<close>

definition memcpy :: "byte list \<Rightarrow> nat \<Rightarrow> byte list \<Rightarrow> byte list" where
  "memcpy dst off src = take off dst @ src @ drop (off + length src) dst"

definition PAM_SUCCESS :: int where "PAM_SUCCESS = 0"
definition PAM_PROMPT_ECHO_OFF :: int where "PAM_PROMPT_ECHO_OFF = 1"
definition PAM_PROMPT_ECHO_ON :: int where "PAM_PROMPT_ECHO_ON = 2"

subsection \<open>Effects, configuration and the outside world\<close>

text \<open>The library calls the modelled code makes. A grab attempt records its result
  (\<open>True\<close> for \<^verbatim>\<open>GrabSuccess\<close>), an authentication attempt the candidate that the
  conversation callback hands to PAM (the C string at \<^verbatim>\<open>passwd\<close>).\<close>

datatype action =
    XGrabPointer bool
  | XGrabKeyboard bool
  | Usleep
  | XSync
  | XNextEvent
  | DPMSEnable
  | DPMSForceLevel
  | PamAuthenticate "byte list"
  | PamError int
  | XBell
  | XUngrabPointer
  | XFreePixmap
  | XDestroyWindow
  | XCloseDisplay

text \<open>An event as the loop sees it: for a key press, the key symbol and the bytes that
  \<^verbatim>\<open>XLookupString\<close> writes to \<^verbatim>\<open>buf\<close> (\<^verbatim>\<open>num\<close> is their number, at most 32).\<close>

datatype xevent = KeyPress keysym "byte list" | OtherEvent

text \<open>One call of \<^verbatim>\<open>XNextEvent\<close>: it returns 0 with an event, or a non-zero value.\<close>

datatype xnext = Delivered xevent | Failed

text \<open>The options the modelled code reads (\<^verbatim>\<open>-b\<close>, \<^verbatim>\<open>-d\<close>) and the cursor pixmap id,
  which is 0 with \<^verbatim>\<open>-p default\<close>.\<close>

record config =
  beep :: bool
  dpms :: bool
  px_curs :: nat

text \<open>What the environment answers: the result of the k-th call of each grab
  primitive, the calls of \<^verbatim>\<open>XNextEvent\<close> that return (after the last one the process
  waits inside \<^verbatim>\<open>XNextEvent\<close>), the return code of the k-th \<^verbatim>\<open>pam_authenticate\<close> for a
  candidate, and \<^verbatim>\<open>DPMSCapable\<close>.\<close>

record world =
  pointer_grab :: "nat \<Rightarrow> bool"
  keyboard_grab :: "nat \<Rightarrow> bool"
  events :: "xnext list"
  pam_authenticate :: "nat \<Rightarrow> byte list \<Rightarrow> int"
  dpms_capable :: bool

text \<open>The variables of \<^verbatim>\<open>main\<close> that the event loop changes, and the global \<^verbatim>\<open>passwd\<close>.
  \<open>attempts\<close> counts the calls of \<^verbatim>\<open>pam_authenticate\<close> (it is not a program variable; it
  selects the world's answer). \<^verbatim>\<open>len\<close> is an unsigned int: it stays below 256 and
  \<^verbatim>\<open>num\<close> is at most 32, so no operation on it wraps around.\<close>

record lock_state =
  passwd :: "byte list"
  len :: nat
  running :: bool
  attempts :: nat

subsection \<open>Grab acquisition (lines 326 to 341)\<close>

text \<open>
  \<^verbatim>\<open>for(len = N; len; len--) { if (grab() == GrabSuccess) break; usleep(1000); }\<close>
  The last argument is the current \<^verbatim>\<open>len\<close>, \<open>k\<close> the number of calls made before.
  The result is the calls made and the value of \<^verbatim>\<open>len\<close> after the loop. The code
  runs it with \<open>N = 1000\<close>.
\<close>

fun grab_loop :: "(nat \<Rightarrow> bool) \<Rightarrow> (bool \<Rightarrow> action) \<Rightarrow> nat \<Rightarrow> nat \<Rightarrow> action list \<times> nat" where
  "grab_loop grab act k 0 = ([], 0)"
| "grab_loop grab act k (Suc n) =
     (if grab k then ([act True], Suc n)
      else (let (t, l) = grab_loop grab act (Suc k) n in (act False # Usleep # t, l)))"

text \<open>Both loops and \<^verbatim>\<open>running = running && (len > 0)\<close>: the calls made and the value
  of \<^verbatim>\<open>running\<close> before \<^verbatim>\<open>XSync\<close>.\<close>

definition acquire_grabs :: "world \<Rightarrow> action list \<times> bool" where
  "acquire_grabs w =
     (let (tp, lp) = grab_loop (pointer_grab w) XGrabPointer 0 1000 in
      if 0 < lp then
        (let (tk, lk) = grab_loop (keyboard_grab w) XGrabKeyboard 0 1000 in (tp @ tk, 0 < lk))
      else (tp, False))"

subsection \<open>The event loop (lines 345 to 397)\<close>

text \<open>Lines 356 to 361: keypad Enter and keypad digits become the main keys.\<close>

definition normalize_keypad :: "keysym \<Rightarrow> keysym" where
  "normalize_keypad ksym =
     (if IsKeypadKey ksym then
        (if ksym = XK_KP_Enter then XK_Return
         else if XK_KP_0 \<le> ksym \<and> ksym \<le> XK_KP_9 then (ksym - XK_KP_0) + XK_0
         else ksym)
      else ksym)"

text \<open>Lines 362 to 367: the keys the loop skips.\<close>

definition ignored_key :: "keysym \<Rightarrow> bool" where
  "ignored_key ksym =
     (IsFunctionKey ksym \<or> IsKeypadKey ksym \<or> IsMiscFunctionKey ksym \<or>
      IsPFKey ksym \<or> IsPrivateKeypadKey ksym)"

text \<open>Lines 346 to 349, evaluated at the start of every iteration.\<close>

definition dpms_check :: "config \<Rightarrow> world \<Rightarrow> lock_state \<Rightarrow> action list" where
  "dpms_check cfg w s =
     (if len s = 0 \<and> dpms cfg \<and> dpms_capable w then [DPMSEnable, DPMSForceLevel] else [])"

text \<open>
  Lines 354 to 396 for a key press with symbol \<open>ksym0\<close> and lookup string \<open>buf\<close>.
  \<^verbatim>\<open>buf[0]\<close> is set to 0 before the lookup, so it is 0 when the string is empty.
  \<^verbatim>\<open>passwd[len] = 0\<close> is inside the array because \<^verbatim>\<open>len\<close> stays below 256
  (\<open>lock_inv\<close> below).
\<close>

definition key_press :: "config \<Rightarrow> world \<Rightarrow> keysym \<Rightarrow> byte list \<Rightarrow> lock_state \<Rightarrow> action list \<times> lock_state" where
  "key_press cfg w ksym0 buf s =
     (let ksym = normalize_keypad ksym0;
          num = length buf;
          buf0 = (case buf of [] \<Rightarrow> 0 | b # _ \<Rightarrow> b)
      in
      if ignored_key ksym then ([], s)
      else if ksym = XK_Return then
        (let s1 = s\<lparr>passwd := (passwd s)[len s := 0]\<rparr> in
         if len s = 0 then ([], s1)
         else
           (let cand = c_string (passwd s1);
                ret = pam_authenticate w (attempts s) cand;
                s2 = s1\<lparr>attempts := Suc (attempts s)\<rparr>
            in
            if ret = PAM_SUCCESS then ([PamAuthenticate cand], s2\<lparr>running := False, len := 0\<rparr>)
            else ([PamAuthenticate cand, PamError ret] @ (if beep cfg then [XBell] else []),
                  s2\<lparr>len := 0\<rparr>)))
      else if ksym = XK_Escape then ([], s\<lparr>len := 0\<rparr>)
      else if ksym = XK_BackSpace then ([], if 0 < len s then s\<lparr>len := len s - 1\<rparr> else s)
      else if num \<noteq> 0 \<and> \<not> iscntrl (sint buf0) \<and> len s + num < 256 then
        ([], s\<lparr>passwd := memcpy (passwd s) (len s) buf, len := len s + num\<rparr>)
      else ([], s))"

text \<open>One iteration of the loop body for a delivered event.\<close>

definition handle_event :: "config \<Rightarrow> world \<Rightarrow> xevent \<Rightarrow> lock_state \<Rightarrow> action list \<times> lock_state" where
  "handle_event cfg w ev s =
     (case ev of
        OtherEvent \<Rightarrow> (dpms_check cfg w s, s)
      | KeyPress ksym buf \<Rightarrow>
          (let (a, s') = key_press cfg w ksym buf s in (dpms_check cfg w s @ a, s')))"

text \<open>How the loop stands when the delivered calls are used up: it has left the
  \<^verbatim>\<open>while\<close>, or it waits inside \<^verbatim>\<open>XNextEvent\<close> for the next event.\<close>

datatype loop_end = LoopExit | Waiting

text \<open>\<^verbatim>\<open>while(running && !XNextEvent(dpy, &ev)) { ... }\<close>\<close>

fun event_loop :: "config \<Rightarrow> world \<Rightarrow> xnext list \<Rightarrow> lock_state \<Rightarrow> action list \<times> lock_state \<times> loop_end" where
  "event_loop cfg w [] s =
     (if running s then ([XNextEvent], s, Waiting) else ([], s, LoopExit))"
| "event_loop cfg w (x # xs) s =
     (if \<not> running s then ([], s, LoopExit)
      else (case x of
              Failed \<Rightarrow> ([XNextEvent], s, LoopExit)
            | Delivered ev \<Rightarrow>
                (let (a1, s1) = handle_event cfg w ev s;
                     (a2, s2, e) = event_loop cfg w xs s1
                 in (XNextEvent # a1 @ a2, s2, e))))"

subsection \<open>Teardown and the whole locking path (lines 326 to 406)\<close>

definition teardown :: "config \<Rightarrow> action list" where
  "teardown cfg =
     XUngrabPointer # (if px_curs cfg \<noteq> 0 then [XFreePixmap, XFreePixmap] else [])
       @ [XDestroyWindow, XCloseDisplay]"

record run =
  actions :: "action list"
  final :: lock_state
  exit_code :: "int option"

text \<open>\<^verbatim>\<open>passwd\<close> is a static array of 256 chars, so it starts zeroed.\<close>

definition init_state :: "bool \<Rightarrow> lock_state" where
  "init_state r = \<lparr>passwd = replicate 256 0, len = 0, running = r, attempts = 0\<rparr>"

text \<open>
  \<^verbatim>\<open>main\<close> from the first grab loop to its final \<^verbatim>\<open>return 0\<close>. Option parsing, the PAM
  and display start-up, the fork and the window set-up come before and are not part
  of this model. \<open>exit_code\<close> is \<open>None\<close> while the process waits for an event.
\<close>

definition main :: "config \<Rightarrow> world \<Rightarrow> run" where
  "main cfg w =
     (let (ta, r) = acquire_grabs w;
          (tl, s, e) = event_loop cfg w (events w) (init_state r)
      in case e of
           Waiting \<Rightarrow> \<lparr>actions = ta @ [XSync] @ tl, final = s, exit_code = None\<rparr>
         | LoopExit \<Rightarrow> \<lparr>actions = ta @ [XSync] @ tl @ teardown cfg, final = s, exit_code = Some 0\<rparr>)"

subsection \<open>The PAM conversation callback (lines 130 to 156)\<close>

text \<open>
  The callback works on memory it shares with its caller, so the memory is explicit.
  \<^verbatim>\<open>resp\<close> points to pointer cells of the caller: \<open>cells\<close> are the cells that belong to
  that object, \<^verbatim>\<open>resp[c]\<close> reads cell \<open>c\<close>, and \<^verbatim>\<open>*resp\<close> is cell 0. PAM passes the
  address of one pointer variable, that is one cell. A cell holds NULL or the address
  of an array of response records in \<open>heap\<close>; \<^verbatim>\<open>p->field\<close> is the first record of the
  array at \<open>p\<close>. Reading a cell outside the object, or following an invalid pointer,
  is undefined in C: the model stops with a \<open>fault\<close>.
\<close>

datatype resp_ptr = NullPtr | ArrayAt nat

record pam_response =
  resp :: "byte list option"
  resp_retcode :: int

record conv_mem =
  cells :: "resp_ptr list"
  heap :: "nat \<rightharpoonup> pam_response list"

datatype fault = OutOfBounds | NullDeref | InvalidPointer

text \<open>What libc answers: the address \<^verbatim>\<open>calloc\<close> returns (\<open>None\<close> for NULL) and whether
  the k-th \<^verbatim>\<open>strdup\<close> succeeds.\<close>

record allocator =
  calloc_result :: "nat option"
  strdup_ok :: "nat \<Rightarrow> bool"

text \<open>
  The \<^verbatim>\<open>for\<close> loop of the callback over the message styles from index \<open>c\<close> on; \<open>k\<close>
  counts the calls of \<^verbatim>\<open>strdup\<close>. The result is the return value and the memory.
  A failing \<^verbatim>\<open>strdup\<close> has stored its NULL in the record before the \<^verbatim>\<open>return 1\<close>.
\<close>

fun conv_loop :: "allocator \<Rightarrow> byte list \<Rightarrow> int list \<Rightarrow> nat \<Rightarrow> nat \<Rightarrow> conv_mem \<Rightarrow> fault + (int \<times> conv_mem)" where
  "conv_loop al pw [] c k m = Inr (0, m)"
| "conv_loop al pw (style # rest) c k m =
     (if style \<noteq> PAM_PROMPT_ECHO_OFF \<and> style \<noteq> PAM_PROMPT_ECHO_ON
      then conv_loop al pw rest (Suc c) k m
      else if length (cells m) \<le> c then Inl OutOfBounds
      else (case cells m ! c of
              NullPtr \<Rightarrow> Inl NullDeref
            | ArrayAt a \<Rightarrow>
                (case heap m a of
                   None \<Rightarrow> Inl InvalidPointer
                 | Some [] \<Rightarrow> Inl OutOfBounds
                 | Some (r # rs) \<Rightarrow>
                     (if strdup_ok al k
                      then conv_loop al pw rest (Suc c) (Suc k)
                             (m\<lparr>heap := (heap m)(a \<mapsto> r\<lparr>resp := Some (c_string pw), resp_retcode := 0\<rparr> # rs)\<rparr>)
                      else Inr (1, m\<lparr>heap := (heap m)(a \<mapsto> r\<lparr>resp := None, resp_retcode := 0\<rparr> # rs)\<rparr>)))))"

text \<open>
  \<^verbatim>\<open>conv_callback(num_msg, msg, resp, appdata_ptr)\<close> with the global \<^verbatim>\<open>passwd\<close> as \<open>pw\<close>;
  \<open>msg\<close> lists the \<^verbatim>\<open>msg_style\<close> of the \<^verbatim>\<open>num_msg\<close> messages. \<^verbatim>\<open>calloc\<close> returns
  \<^verbatim>\<open>num_msg\<close> zeroed elements; the code sizes them as \<^verbatim>\<open>struct pam_message\<close>, which
  like \<^verbatim>\<open>struct pam_response\<close> is one pointer and one int, so they are the records.
\<close>

definition conv_callback :: "allocator \<Rightarrow> byte list \<Rightarrow> int list \<Rightarrow> conv_mem \<Rightarrow> fault + (int \<times> conv_mem)" where
  "conv_callback al pw msg m =
     (if length msg = 0 then Inr (1, m)
      else if cells m = [] then Inl OutOfBounds
      else (case calloc_result al of
              None \<Rightarrow> Inr (1, m\<lparr>cells := (cells m)[0 := NullPtr]\<rparr>)
            | Some a \<Rightarrow>
                conv_loop al pw msg 0 0
                  (m\<lparr>cells := (cells m)[0 := ArrayAt a],
                     heap := (heap m)(a \<mapsto> replicate (length msg) \<lparr>resp = None, resp_retcode = 0\<rparr>)\<rparr>)))"

subsection \<open>Predicates and concrete inputs used in the statements below\<close>

text \<open>The calls that the event loop itself can make.\<close>

fun loop_action :: "action \<Rightarrow> bool" where
  "loop_action XNextEvent = True"
| "loop_action DPMSEnable = True"
| "loop_action DPMSForceLevel = True"
| "loop_action (PamAuthenticate c) = True"
| "loop_action (PamError r) = True"
| "loop_action XBell = True"
| "loop_action a = False"

fun is_authenticate :: "action \<Rightarrow> bool" where
  "is_authenticate (PamAuthenticate c) = True"
| "is_authenticate a = False"

text \<open>The buffer invariant: the array has its 256 bytes and \<^verbatim>\<open>len\<close> indexes into it.\<close>

definition lock_inv :: "lock_state \<Rightarrow> bool" where
  "lock_inv s = (length (passwd s) = 256 \<and> len s < 256)"

text \<open>A key whose symbol reaches the \<^verbatim>\<open>default\<close> case of the \<^verbatim>\<open>switch\<close>.\<close>

definition default_key :: "keysym \<Rightarrow> bool" where
  "default_key ksym0 =
     (let ksym = normalize_keypad ksym0
      in \<not> ignored_key ksym \<and> ksym \<noteq> XK_Return \<and> ksym \<noteq> XK_Escape \<and> ksym \<noteq> XK_BackSpace)"

definition example_config :: config where
  "example_config = \<lparr>beep = True, dpms = True, px_curs = 1\<rparr>"

text \<open>A display where both grabs succeed at once, and a PAM stack that accepts the
  password \<^verbatim>\<open>ok\<close> and answers \<^verbatim>\<open>PAM_AUTH_ERR\<close> (7) to anything else.\<close>

definition example_world :: "xnext list \<Rightarrow> world" where
  "example_world evs =
     \<lparr>pointer_grab = (\<lambda>k. True), keyboard_grab = (\<lambda>k. True), events = evs,
      pam_authenticate = (\<lambda>k cand. if cand = [0x6F, 0x6B] then 0 else 7),
      dpms_capable = True\<rparr>"

text \<open>A display whose pointer is held by another client for good.\<close>

definition busy_pointer_world :: world where
  "busy_pointer_world = (example_world [])\<lparr>pointer_grab := (\<lambda>k. False)\<rparr>"

text \<open>A pointer grab that succeeds at once and a keyboard held by another client.\<close>

definition busy_keyboard_world :: world where
  "busy_keyboard_world = (example_world [])\<lparr>keyboard_grab := (\<lambda>k. False)\<rparr>"

definition key :: "keysym \<Rightarrow> byte list \<Rightarrow> xnext" where
  "key ksym buf = Delivered (KeyPress ksym buf)"

text \<open>The state of a running loop after \<open>n\<close> presses of the key \<^verbatim>\<open>a\<close> on a fresh buffer.\<close>

definition typed_state :: "nat \<Rightarrow> lock_state" where
  "typed_state n =
     \<lparr>passwd = replicate n 0x61 @ replicate (256 - n) 0, len = n, running = True, attempts = 0\<rparr>"


section \<open>Auxiliary facts\<close>

lemmas keysym_defs =
  XK_BackSpace_def XK_Return_def XK_Escape_def XK_Select_def XK_Break_def
  XK_KP_Space_def XK_KP_Enter_def XK_KP_F1_def XK_KP_F4_def XK_KP_0_def XK_KP_9_def
  XK_KP_Equal_def XK_F1_def XK_F35_def XK_0_def

lemmas keyclass_defs =
  IsKeypadKey_def IsPrivateKeypadKey_def IsPFKey_def IsFunctionKey_def IsMiscFunctionKey_def

subsection \<open>Facts about the grab loop\<close>

lemma grab_loop_all_fail:
  "grab_loop (\<lambda>_. False) act k n = (concat (replicate n [act False, Usleep]), 0)"
  by (induction n arbitrary: k) simp_all

lemma count_attempt_sleep_pairs:
  "a \<noteq> b \<Longrightarrow> count_list (concat (replicate n [a, b])) a = n \<and> count_list (concat (replicate n [a, b])) b = n"
  by (induction n) simp_all

lemma grab_loop_first: "g k \<Longrightarrow> 0 < n \<Longrightarrow> grab_loop g act k n = ([act True], n)"
  by (cases n) simp_all

lemma grab_loop_len_pos: "(0 < snd (grab_loop g act k n)) = (\<exists>j<n. g (k + j))"
proof (induction n arbitrary: k)
  case 0
  then show ?case by simp
next
  case (Suc n)
  show ?case
  proof (cases "g k")
    case True
    then have "\<exists>j<Suc n. g (k + j)" by (intro exI [of _ 0]) simp
    with True show ?thesis by simp
  next
    case False
    have "(\<exists>j<Suc n. g (k + j)) = (\<exists>j<n. g (Suc k + j))"
    proof
      assume "\<exists>j<Suc n. g (k + j)"
      then obtain j where j: "j < Suc n" "g (k + j)" by blast
      with False have "j \<noteq> 0" by (cases j) auto
      then obtain i where "j = Suc i" by (cases j) auto
      with j show "\<exists>j<n. g (Suc k + j)" by auto
    next
      assume "\<exists>j<n. g (Suc k + j)"
      then obtain j where "j < n" "g (Suc k + j)" by blast
      then show "\<exists>j<Suc n. g (k + j)" by (intro exI [of _ "Suc j"]) simp
    qed
    with False Suc.IH [of "Suc k"] show ?thesis by (simp add: split_beta)
  qed
qed

lemma grab_loop_actions: "set (fst (grab_loop g act k n)) \<subseteq> {act True, act False, Usleep}"
  by (induction n arbitrary: k) (auto simp: split_beta)

lemma grab_loop_success_recorded:
  "0 < snd (grab_loop g act k n) \<Longrightarrow> act True \<in> set (fst (grab_loop g act k n))"
  by (induction n arbitrary: k) (auto simp: split_beta split: if_splits)

lemma grab_loop_failure_recorded:
  "snd (grab_loop g act k n) = 0 \<Longrightarrow> set (fst (grab_loop g act k n)) \<subseteq> {act False, Usleep}"
  by (induction n arbitrary: k) (auto simp: split_beta split: if_splits)

subsection \<open>Facts about grab acquisition\<close>

text \<open>The calls of the pointer loop and of the keyboard loop, separately.\<close>

lemma acquire_grabs_split:
  "\<exists>tp tk. fst (acquire_grabs w) = tp @ tk
     \<and> set tp \<subseteq> {XGrabPointer True, XGrabPointer False, Usleep}
     \<and> set tk \<subseteq> {XGrabKeyboard True, XGrabKeyboard False, Usleep}
     \<and> (tk \<noteq> [] \<longrightarrow> XGrabPointer True \<in> set tp \<and> (\<exists>k<1000. pointer_grab w k))
     \<and> (snd (acquire_grabs w) \<longrightarrow> XGrabPointer True \<in> set tp \<and> XGrabKeyboard True \<in> set tk)"
proof (cases "0 < snd (grab_loop (pointer_grab w) XGrabPointer 0 1000)")
  case True
  let ?tp = "fst (grab_loop (pointer_grab w) XGrabPointer 0 1000)"
  let ?K = "grab_loop (keyboard_grab w) XGrabKeyboard 0 1000"
  have eq: "acquire_grabs w = (?tp @ fst ?K, 0 < snd ?K)"
    using True by (simp add: acquire_grabs_def split_beta)
  have "XGrabPointer True \<in> set ?tp"
    using True by (rule grab_loop_success_recorded)
  moreover have "\<exists>k<1000. pointer_grab w k"
    using True by (simp add: grab_loop_len_pos)
  moreover have "0 < snd ?K \<longrightarrow> XGrabKeyboard True \<in> set (fst ?K)"
    by (simp add: grab_loop_success_recorded)
  ultimately show ?thesis
    unfolding eq fst_conv snd_conv
    by (intro exI [of _ ?tp] exI [of _ "fst ?K"]) (simp add: grab_loop_actions)
next
  case False
  let ?tp = "fst (grab_loop (pointer_grab w) XGrabPointer 0 1000)"
  have eq: "acquire_grabs w = (?tp, False)"
    using False by (simp add: acquire_grabs_def split_beta)
  show ?thesis
    unfolding eq fst_conv snd_conv
    by (intro exI [of _ ?tp] exI [of _ "[]"]) (simp add: grab_loop_actions)
qed

lemma acquire_grabs_ok:
  "snd (acquire_grabs w) = ((\<exists>k<1000. pointer_grab w k) \<and> (\<exists>k<1000. keyboard_grab w k))"
  using grab_loop_len_pos [of "pointer_grab w" XGrabPointer 0 1000]
        grab_loop_len_pos [of "keyboard_grab w" XGrabKeyboard 0 1000]
  by (simp add: acquire_grabs_def split_beta)

lemma acquire_grabs_failed_actions:
  assumes "\<not> snd (acquire_grabs w)"
  shows "set (fst (acquire_grabs w)) \<subseteq> {XGrabPointer True, XGrabPointer False, XGrabKeyboard False, Usleep}"
proof (cases "0 < snd (grab_loop (pointer_grab w) XGrabPointer 0 1000)")
  case True
  let ?tp = "fst (grab_loop (pointer_grab w) XGrabPointer 0 1000)"
  let ?K = "grab_loop (keyboard_grab w) XGrabKeyboard 0 1000"
  have eq: "acquire_grabs w = (?tp @ fst ?K, 0 < snd ?K)"
    using True by (simp add: acquire_grabs_def split_beta)
  with assms have "snd ?K = 0" by simp
  then have "set (fst ?K) \<subseteq> {XGrabKeyboard False, Usleep}"
    by (rule grab_loop_failure_recorded)
  moreover have "set ?tp \<subseteq> {XGrabPointer True, XGrabPointer False, Usleep}"
    by (rule grab_loop_actions)
  ultimately show ?thesis unfolding eq by auto
next
  case False
  let ?tp = "fst (grab_loop (pointer_grab w) XGrabPointer 0 1000)"
  have eq: "acquire_grabs w = (?tp, False)"
    using False by (simp add: acquire_grabs_def split_beta)
  from False have "snd (grab_loop (pointer_grab w) XGrabPointer 0 1000) = 0" by simp
  then have "set ?tp \<subseteq> {XGrabPointer False, Usleep}"
    by (rule grab_loop_failure_recorded)
  then show ?thesis unfolding eq by auto
qed

subsection \<open>Facts about the event loop\<close>

lemma dpms_check_actions: "a \<in> set (dpms_check cfg w s) \<Longrightarrow> a = DPMSEnable \<or> a = DPMSForceLevel"
  by (auto simp: dpms_check_def split: if_splits)

lemma key_press_actions:
  "a \<in> set (fst (key_press cfg w k b s)) \<Longrightarrow> (\<exists>c. a = PamAuthenticate c) \<or> (\<exists>r. a = PamError r) \<or> a = XBell"
  by (auto simp: key_press_def Let_def split: if_splits)

lemma handle_event_actions: "a \<in> set (fst (handle_event cfg w ev s)) \<Longrightarrow> loop_action a"
  by (cases ev) (auto simp: handle_event_def split_beta dest: dpms_check_actions key_press_actions)

lemma event_loop_actions: "a \<in> set (fst (event_loop cfg w xs s)) \<Longrightarrow> loop_action a"
proof (induction xs arbitrary: s)
  case Nil
  then show ?case by (auto split: if_splits)
next
  case (Cons x xs)
  then show ?case
    by (cases x) (auto simp: split_beta split: if_splits dest: handle_event_actions)
qed

lemma event_loop_stopped: "\<not> running s \<Longrightarrow> event_loop cfg w xs s = ([], s, LoopExit)"
  by (cases xs) simp_all

lemma event_loop_waiting:
  "snd (snd (event_loop cfg w xs s)) = Waiting \<Longrightarrow> running (fst (snd (event_loop cfg w xs s)))"
proof (induction xs arbitrary: s)
  case Nil
  then show ?case by (auto split: if_splits)
next
  case (Cons x xs)
  then show ?case
    by (cases x) (auto simp: split_beta split: if_splits)
qed

subsection \<open>The shape of a run\<close>

lemma teardown_actions:
  "set (teardown cfg) \<subseteq> {XUngrabPointer, XFreePixmap, XDestroyWindow, XCloseDisplay}"
  by (auto simp: teardown_def)

lemma main_shape:
  "\<exists>tp tk tl td. actions (main cfg w) = tp @ tk @ [XSync] @ tl @ td
     \<and> set tp \<subseteq> {XGrabPointer True, XGrabPointer False, Usleep}
     \<and> set tk \<subseteq> {XGrabKeyboard True, XGrabKeyboard False, Usleep}
     \<and> (tk \<noteq> [] \<longrightarrow> XGrabPointer True \<in> set tp \<and> (\<exists>k<1000. pointer_grab w k))
     \<and> (\<forall>a\<in>set tl. loop_action a)
     \<and> (tl \<noteq> [] \<longrightarrow> XGrabPointer True \<in> set tp \<and> XGrabKeyboard True \<in> set tk
           \<and> (\<exists>k<1000. pointer_grab w k) \<and> (\<exists>k<1000. keyboard_grab w k))
     \<and> set td \<subseteq> {XUngrabPointer, XFreePixmap, XDestroyWindow, XCloseDisplay}"
proof -
  obtain tp tk where g: "fst (acquire_grabs w) = tp @ tk"
     "set tp \<subseteq> {XGrabPointer True, XGrabPointer False, Usleep}"
     "set tk \<subseteq> {XGrabKeyboard True, XGrabKeyboard False, Usleep}"
     "tk \<noteq> [] \<longrightarrow> XGrabPointer True \<in> set tp \<and> (\<exists>k<1000. pointer_grab w k)"
     "snd (acquire_grabs w) \<longrightarrow> XGrabPointer True \<in> set tp \<and> XGrabKeyboard True \<in> set tk"
    using acquire_grabs_split [of w] by blast
  let ?L = "event_loop cfg w (events w) (init_state (snd (acquire_grabs w)))"
  let ?td = "case snd (snd ?L) of Waiting \<Rightarrow> [] | LoopExit \<Rightarrow> teardown cfg"
  have act: "actions (main cfg w) = tp @ tk @ [XSync] @ fst ?L @ ?td"
    using g(1) by (simp add: main_def split_beta split: loop_end.splits)
  have l1: "\<forall>a\<in>set (fst ?L). loop_action a"
    by (simp add: event_loop_actions)
  have l2: "fst ?L \<noteq> [] \<longrightarrow> snd (acquire_grabs w)"
  proof (cases "snd (acquire_grabs w)")
    case False
    then have "\<not> running (init_state (snd (acquire_grabs w)))" by (simp add: init_state_def)
    then show ?thesis by (simp add: event_loop_stopped)
  qed simp
  have l3: "set ?td \<subseteq> {XUngrabPointer, XFreePixmap, XDestroyWindow, XCloseDisplay}"
    using teardown_actions [of cfg] by (cases "snd (snd ?L)") simp_all
  from g(5) l2 acquire_grabs_ok [of w]
  have l4: "fst ?L \<noteq> [] \<longrightarrow> XGrabPointer True \<in> set tp \<and> XGrabKeyboard True \<in> set tk
      \<and> (\<exists>k<1000. pointer_grab w k) \<and> (\<exists>k<1000. keyboard_grab w k)"
    by blast
  show ?thesis
    apply (rule exI [of _ tp], rule exI [of _ tk], rule exI [of _ "fst ?L"], rule exI [of _ ?td])
    using act g(2,3,4) l1 l3 l4 apply simp
    done
qed

subsection \<open>Where an action sits in a composed trace\<close>

lemma split_right:
  assumes "xs @ ys = p @ a # rest" and "a \<notin> set xs"
  shows "\<exists>p'. p = xs @ p' \<and> ys = p' @ a # rest"
proof -
  from assms(1) obtain us where
    "(xs = p @ us \<and> us @ ys = a # rest) \<or> (xs @ us = p \<and> ys = us @ a # rest)"
    by (auto simp: append_eq_append_conv2)
  then show ?thesis
  proof
    assume h: "xs = p @ us \<and> us @ ys = a # rest"
    show ?thesis
    proof (cases us)
      case Nil
      with h show ?thesis by simp
    next
      case (Cons u us')
      with h have "a \<in> set xs" by simp
      with assms(2) show ?thesis by simp
    qed
  next
    assume "xs @ us = p \<and> ys = us @ a # rest"
    then show ?thesis by auto
  qed
qed

lemma split_left:
  assumes "xs @ ys = p @ a # rest" and "a \<notin> set ys"
  shows "\<exists>r'. xs = p @ a # r'"
proof -
  from assms(1) obtain us where
    "(xs = p @ us \<and> us @ ys = a # rest) \<or> (xs @ us = p \<and> ys = us @ a # rest)"
    by (auto simp: append_eq_append_conv2)
  then show ?thesis
  proof
    assume h: "xs = p @ us \<and> us @ ys = a # rest"
    show ?thesis
    proof (cases us)
      case Nil
      with h have "a \<in> set ys" by simp
      with assms(2) show ?thesis by simp
    next
      case (Cons u us')
      with h show ?thesis by simp
    qed
  next
    assume "xs @ us = p \<and> ys = us @ a # rest"
    then have "a \<in> set ys" by auto
    with assms(2) show ?thesis by simp
  qed
qed

lemma replicate_update_same: "(replicate n x)[i := x] = replicate n x"
  by (induction n arbitrary: i) (simp_all split: nat.splits)

lemmas run_defs = replicate_update_same main_def acquire_grabs_def grab_loop_first grab_loop_all_fail
  example_world_def example_config_def busy_pointer_world_def busy_keyboard_world_def key_def
  init_state_def handle_event_def key_press_def dpms_check_def normalize_keypad_def ignored_key_def
  keyclass_defs keysym_defs c_string_def iscntrl_def memcpy_def PAM_SUCCESS_def Let_def teardown_def

subsection \<open>Facts about the key dispatch\<close>

lemma enter_key: "k = XK_Return \<or> k = XK_KP_Enter \<Longrightarrow> normalize_keypad k = XK_Return"
  by (auto simp: normalize_keypad_def keyclass_defs keysym_defs)

lemma return_not_ignored: "\<not> ignored_key XK_Return"
  by (simp add: ignored_key_def keyclass_defs keysym_defs)

lemma key_press_enter_empty:
  assumes "k = XK_Return \<or> k = XK_KP_Enter" and "len s = 0"
  shows "key_press cfg w k b s = ([], s\<lparr>passwd := (passwd s)[0 := 0]\<rparr>)"
  using enter_key [OF assms(1)] assms(2) by (simp add: key_press_def Let_def return_not_ignored)

lemma key_press_enter_success:
  assumes "k = XK_Return \<or> k = XK_KP_Enter" and "0 < len s"
    and "pam_authenticate w (attempts s) (c_string ((passwd s)[len s := 0])) = PAM_SUCCESS"
  shows "key_press cfg w k b s =
    ([PamAuthenticate (c_string ((passwd s)[len s := 0]))],
     s\<lparr>passwd := (passwd s)[len s := 0], attempts := Suc (attempts s), running := False, len := 0\<rparr>)"
  using enter_key [OF assms(1)] assms(2,3) by (simp add: key_press_def Let_def return_not_ignored)

lemma key_press_enter_failure:
  assumes "k = XK_Return \<or> k = XK_KP_Enter" and "0 < len s"
    and "pam_authenticate w (attempts s) (c_string ((passwd s)[len s := 0])) \<noteq> PAM_SUCCESS"
  shows "key_press cfg w k b s =
    ([PamAuthenticate (c_string ((passwd s)[len s := 0])),
      PamError (pam_authenticate w (attempts s) (c_string ((passwd s)[len s := 0])))]
       @ (if beep cfg then [XBell] else []),
     s\<lparr>passwd := (passwd s)[len s := 0], attempts := Suc (attempts s), len := 0\<rparr>)"
  using enter_key [OF assms(1)] assms(2,3) by (simp add: key_press_def Let_def return_not_ignored)

lemma key_press_default:
  assumes "default_key k"
  shows "key_press cfg w k b s =
    (if b \<noteq> [] \<and> \<not> iscntrl (sint (hd b)) \<and> len s + length b < 256
     then ([], s\<lparr>passwd := memcpy (passwd s) (len s) b, len := len s + length b\<rparr>)
     else ([], s))"
  using assms by (cases b) (simp_all add: key_press_def default_key_def Let_def)

lemma memcpy_length:
  "off + length src \<le> length dst \<Longrightarrow> length (memcpy dst off src) = length dst"
  by (simp add: memcpy_def)

lemma memcpy_before: "off \<le> length dst \<Longrightarrow> take off (memcpy dst off src) = take off dst"
  by (simp add: memcpy_def)

lemma memcpy_copied:
  "off \<le> length dst \<Longrightarrow> take (length src) (drop off (memcpy dst off src)) = src"
  by (simp add: memcpy_def)

lemma memcpy_after:
  "off \<le> length dst \<Longrightarrow>
     drop (off + length src) (memcpy dst off src) = drop (off + length src) dst"
  by (simp add: memcpy_def)

lemma key_press_inv: "lock_inv s \<Longrightarrow> lock_inv (snd (key_press cfg w k b s))"
  by (auto simp: key_press_def lock_inv_def Let_def memcpy_length)

lemma handle_event_inv: "lock_inv s \<Longrightarrow> lock_inv (snd (handle_event cfg w ev s))"
  by (cases ev) (simp_all add: handle_event_def split_beta key_press_inv)

lemma event_loop_inv: "lock_inv s \<Longrightarrow> lock_inv (fst (snd (event_loop cfg w xs s)))"
proof (induction xs arbitrary: s)
  case Nil
  then show ?case by simp
next
  case (Cons x xs)
  show ?case
  proof (cases x)
    case (Delivered ev)
    from Cons.prems have "lock_inv (snd (handle_event cfg w ev s))"
      by (rule handle_event_inv)
    then have "lock_inv (fst (snd (event_loop cfg w xs (snd (handle_event cfg w ev s)))))"
      by (rule Cons.IH)
    with Delivered Cons.prems show ?thesis by (simp add: split_beta)
  next
    case Failed
    with Cons.prems show ?thesis by simp
  qed
qed

lemma init_state_inv: "lock_inv (init_state r)"
  by (simp add: lock_inv_def init_state_def)

lemma main_inv: "lock_inv (final (main cfg w))"
proof -
  let ?L = "event_loop cfg w (events w) (init_state (snd (acquire_grabs w)))"
  have "final (main cfg w) = fst (snd ?L)"
    by (simp add: main_def split_beta split: loop_end.splits)
  moreover have "lock_inv (fst (snd ?L))"
    using init_state_inv by (rule event_loop_inv)
  ultimately show ?thesis by simp
qed

lemma letter_a_default: "default_key 0x61"
  by (simp add: default_key_def normalize_keypad_def ignored_key_def keyclass_defs keysym_defs)

lemma typed_state_inv: "n \<le> 255 \<Longrightarrow> lock_inv (typed_state n)"
  by (simp add: lock_inv_def typed_state_def)

lemma typed_state_running: "running (typed_state n)"
  by (simp add: typed_state_def)

lemma type_letter:
  assumes "n < 255"
  shows "key_press cfg w 0x61 [0x61] (typed_state n) = ([], typed_state (Suc n))"
proof -
  have "replicate n (0x61 :: byte) @ [0x61] = replicate (Suc n) 0x61"
    by (simp add: replicate_append_same)
  then have "memcpy (replicate n 0x61 @ replicate (256 - n) 0) n [0x61 :: byte]
      = replicate (Suc n) 0x61 @ replicate (256 - Suc n) 0"
    using assms by (simp add: memcpy_def)
  with assms show ?thesis
    by (simp add: key_press_default [OF letter_a_default] typed_state_def iscntrl_def)
qed

lemma type_letter_full:
  "key_press cfg w 0x61 [0x61] (typed_state 255) = ([], typed_state 255)"
  by (simp add: key_press_default [OF letter_a_default] typed_state_def)

lemma type_letters:
  "m + n \<le> 255 \<Longrightarrow>
     fst (snd (event_loop cfg w (replicate n (key 0x61 [0x61])) (typed_state m))) = typed_state (m + n)"
proof (induction n arbitrary: m)
  case 0
  then show ?case by (simp add: typed_state_def)
next
  case (Suc n)
  from Suc.prems have m: "m < 255" and rest: "Suc m + n \<le> 255" by simp_all
  from Suc.IH [OF rest] type_letter [OF m, of cfg w]
  show ?case by (simp add: key_def handle_event_def typed_state_running split_beta)
qed



subsection \<open>Facts about the conversation callback\<close>

text \<open>With one echo-off prompt, the conversation PAM modules usually hold, the callback
  returns 0 and the record at \<^verbatim>\<open>*resp\<close> holds a copy of the password.\<close>

lemma conv_callback_single_prompt:
  "conv_callback \<lparr>calloc_result = Some a, strdup_ok = (\<lambda>k. True)\<rparr> pw [PAM_PROMPT_ECHO_OFF]
     \<lparr>cells = [NullPtr], heap = Map.empty\<rparr>
   = Inr (0, \<lparr>cells = [ArrayAt a],
               heap = [a \<mapsto> [\<lparr>resp = Some (c_string pw), resp_retcode = 0\<rparr>]]\<rparr>)"
  by (simp add: conv_callback_def)

text \<open>A prompt at any later index is addressed through a cell beyond the caller's
  single pointer, whatever the first message is.\<close>

lemma conv_loop_out_of_bounds:
  "length (cells m) \<le> c \<Longrightarrow> PAM_PROMPT_ECHO_OFF \<in> set msg \<or> PAM_PROMPT_ECHO_ON \<in> set msg \<Longrightarrow>
     conv_loop al pw msg c k m = Inl OutOfBounds"
proof (induction msg arbitrary: c)
  case Nil
  then show ?case by simp
next
  case (Cons style rest)
  show ?case
  proof (cases "style \<noteq> PAM_PROMPT_ECHO_OFF \<and> style \<noteq> PAM_PROMPT_ECHO_ON")
    case True
    with Cons.prems(2) have "PAM_PROMPT_ECHO_OFF \<in> set rest \<or> PAM_PROMPT_ECHO_ON \<in> set rest"
      by auto
    moreover from Cons.prems(1) have "length (cells m) \<le> Suc c" by simp
    ultimately have "conv_loop al pw rest (Suc c) k m = Inl OutOfBounds"
      by (rule Cons.IH [rotated])
    with True show ?thesis by simp
  next
    case False
    with Cons.prems(1) show ?thesis by auto
  qed
qed

lemma conv_callback_later_prompt:
  assumes later: "PAM_PROMPT_ECHO_OFF \<in> set rest \<or> PAM_PROMPT_ECHO_ON \<in> set rest"
    and alloc: "calloc_result al = Some a" "strdup_ok al 0"
  shows "conv_callback al pw (s0 # rest) \<lparr>cells = [p], heap = h\<rparr> = Inl OutOfBounds"
proof -
  have "conv_loop al pw rest (Suc 0) k m = Inl OutOfBounds" if "cells m = [ArrayAt a]" for k m
    using that later by (intro conv_loop_out_of_bounds) simp_all
  with alloc show ?thesis
    by (simp add: conv_callback_def)
qed

subsection \<open>A run whose grabs fail\<close>

text \<open>When either grab fails on all of its 1000 attempts, the calls of the run are
  the grab attempts, \<^verbatim>\<open>XSync\<close> and the teardown, which starts by releasing the pointer
  grab and ends by closing the display; no event is read, the buffer is untouched,
  and \<^verbatim>\<open>main\<close> returns 0.\<close>

lemma failed_grab_run:
  assumes "(\<forall>k<1000. \<not> pointer_grab w k) \<or> (\<forall>k<1000. \<not> keyboard_grab w k)"
  shows "actions (main cfg w) = fst (acquire_grabs w) @ [XSync] @ teardown cfg"
    and "set (fst (acquire_grabs w))
           \<subseteq> {XGrabPointer True, XGrabPointer False, XGrabKeyboard False, Usleep}"
    and "hd (teardown cfg) = XUngrabPointer" and "last (teardown cfg) = XCloseDisplay"
    and "exit_code (main cfg w) = Some 0" and "final (main cfg w) = init_state False"
proof -
  from assms have nr: "\<not> snd (acquire_grabs w)"
    by (auto simp: acquire_grabs_ok)
  then have "\<not> running (init_state (snd (acquire_grabs w)))"
    by (simp add: init_state_def)
  then have loop: "event_loop cfg w (events w) (init_state (snd (acquire_grabs w)))
      = ([], init_state (snd (acquire_grabs w)), LoopExit)"
    by (rule event_loop_stopped)
  show "actions (main cfg w) = fst (acquire_grabs w) @ [XSync] @ teardown cfg"
    using loop by (simp add: main_def split_beta)
  show "set (fst (acquire_grabs w))
           \<subseteq> {XGrabPointer True, XGrabPointer False, XGrabKeyboard False, Usleep}"
    using nr by (rule acquire_grabs_failed_actions)
  show "hd (teardown cfg) = XUngrabPointer" by (simp add: teardown_def)
  show "last (teardown cfg) = XCloseDisplay" by (simp add: teardown_def)
  show "exit_code (main cfg w) = Some 0"
    using loop by (simp add: main_def split_beta)
  show "final (main cfg w) = init_state False"
    using loop nr by (simp add: main_def split_beta)
qed

text \<open>The only exit code of the locking path is 0: a run that has exited, for whatever
  reason, has returned 0.\<close>

lemma main_exit_code: "exit_code (main cfg w) = None \<or> exit_code (main cfg w) = Some 0"
  by (simp add: main_def split_beta split: loop_end.splits)

section \<open>The claims\<close>

subsection \<open>C1: the buffer after a submission\<close>

text \<open>
  C1 says that after every submission every byte of the backing store is zero. The
  code has no wipe: the Enter handler writes the terminating NUL at \<^verbatim>\<open>passwd[len]\<close>,
  calls PAM and sets \<^verbatim>\<open>len = 0\<close>. What holds instead, whatever PAM answers: after an
  Enter (main or keypad) on a non-empty buffer the length is 0, the store differs
  from the old one only by the NUL at the old length, and the typed bytes are all
  still there.
\<close>

theorem enter_resets_length_keeps_store:
  assumes "0 < len s" and "k = XK_Return \<or> k = XK_KP_Enter"
  shows "(let s' = snd (handle_event cfg w (KeyPress k b) s) in
           len s' = 0 \<and> passwd s' = (passwd s)[len s := 0]
           \<and> take (len s) (passwd s') = take (len s) (passwd s))"
proof (cases "pam_authenticate w (attempts s) (c_string ((passwd s)[len s := 0])) = PAM_SUCCESS")
  case True
  from key_press_enter_success [OF assms(2,1) True, of cfg b]
  show ?thesis by (simp add: handle_event_def)
next
  case False
  from key_press_enter_failure [OF assms(2,1) False, of cfg b]
  show ?thesis by (simp add: handle_event_def)
qed

theorem enter_resets_length_keeps_store_witness:
  "0 < len (typed_state 3) \<and> (XK_KP_Enter = XK_Return \<or> XK_KP_Enter = XK_KP_Enter)
   \<and> len (snd (handle_event example_config (example_world []) (KeyPress XK_KP_Enter [0x0D]) (typed_state 3))) = 0
   \<and> take 3 (passwd (snd (handle_event example_config (example_world []) (KeyPress XK_KP_Enter [0x0D]) (typed_state 3))))
       = replicate 3 0x61"
  using enter_resets_length_keeps_store
          [of "typed_state 3" XK_KP_Enter example_config "example_world []" "[0x0D]"]
  by (simp add: typed_state_def Let_def)

text \<open>The letter \<^verbatim>\<open>a\<close> and Enter, with a PAM stack that rejects: the first byte of the
  store still holds the letter when the attempt is over.\<close>

theorem store_not_zeroed_after_enter:
  "passwd (final (main example_config (example_world [key 0x61 [0x61], key XK_Return [0x0D]]))) ! 0 \<noteq> 0"
  by (simp add: run_defs)

subsection \<open>C2: a grab that never succeeds\<close>

text \<open>
  C2 says that with \<open>N\<close> attempts allowed and a grab that always fails the loop makes
  \<open>N\<close> attempts, sleeps \<open>N - 1\<close> times and reports failure. The loop sleeps after
  every failed attempt, the last one included: for the pointer and for the keyboard
  alike there are exactly \<open>N\<close> attempts, each followed by one sleep, so \<open>N\<close> sleeps,
  and \<^verbatim>\<open>len\<close> ends at 0, which is what makes \<^verbatim>\<open>running\<close> false.
\<close>

theorem grab_loop_always_failing:
  "grab_loop (\<lambda>_. False) XGrabPointer k N = (concat (replicate N [XGrabPointer False, Usleep]), 0)
   \<and> count_list (fst (grab_loop (\<lambda>_. False) XGrabPointer k N)) (XGrabPointer False) = N
   \<and> count_list (fst (grab_loop (\<lambda>_. False) XGrabPointer k N)) Usleep = N
   \<and> grab_loop (\<lambda>_. False) XGrabKeyboard k N = (concat (replicate N [XGrabKeyboard False, Usleep]), 0)
   \<and> count_list (fst (grab_loop (\<lambda>_. False) XGrabKeyboard k N)) (XGrabKeyboard False) = N
   \<and> count_list (fst (grab_loop (\<lambda>_. False) XGrabKeyboard k N)) Usleep = N"
  by (simp add: grab_loop_all_fail count_attempt_sleep_pairs)

text \<open>With the 1000 attempts of the code the failing pointer loop sleeps 1000 times,
  not 999.\<close>

theorem grab_loop_sleeps_after_last_attempt:
  "count_list (fst (grab_loop (\<lambda>_. False) XGrabPointer 0 1000)) Usleep \<noteq> 1000 - 1"
  by (simp add: grab_loop_all_fail count_attempt_sleep_pairs)

subsection \<open>C3: leaving after a failed grab\<close>

text \<open>
  C3: a grab that exhausts its retries must end the process with a non-zero exit
  code, after releasing a pointer grab already held, and exit code 0 is reserved to
  a normal unlock (and the version query). The other start-up failures of \<^verbatim>\<open>main\<close> do
  exit non-zero (\<^verbatim>\<open>errx(1, ...)\<close> for the missing user name, the PAM start and the
  display, \<^verbatim>\<open>return 1\<close> after an XPM error). A failed grab does not: it only clears
  \<^verbatim>\<open>running\<close>, so the process falls through the teardown to the final \<^verbatim>\<open>return 0\<close>.
  With a pointer held by another client on all 1000 attempts, and likewise with a
  keyboard held by another client after the pointer was grabbed, no grab is acquired
  and the exit code is 0.
\<close>

theorem grab_failure_exit_code_zero:
  "\<not> snd (acquire_grabs busy_pointer_world)
   \<and> exit_code (main example_config busy_pointer_world) = Some 0
   \<and> \<not> snd (acquire_grabs busy_keyboard_world)
   \<and> exit_code (main example_config busy_keyboard_world) = Some 0"
  by (simp add: run_defs)

subsection \<open>C4: the power-state trigger\<close>

text \<open>
  C4 says that with power-state control configured the collaborator is triggered once
  over the whole run, before the first event is processed, and never again. The
  code tests \<^verbatim>\<open>len == 0 && dpms && DPMSCapable(dpy)\<close> at the start of every iteration.
  What holds, with the option set and a capable display: each event that arrives
  while the buffer is empty triggers the collaborator once, before the event is
  looked at; an event that arrives while the buffer is non-empty does not trigger
  it; and the first event of the loop always does.
\<close>

theorem dpms_triggered_while_empty:
  assumes "dpms cfg" and "dpms_capable w"
  shows "count_list (fst (handle_event cfg w ev s)) DPMSEnable = (if len s = 0 then 1 else 0)
       \<and> (if len s = 0 then take 2 (fst (handle_event cfg w ev s)) = [DPMSEnable, DPMSForceLevel]
          else DPMSForceLevel \<notin> set (fst (handle_event cfg w ev s)))
       \<and> take 3 (fst (event_loop cfg w (Delivered ev # xs) (init_state True)))
           = [XNextEvent, DPMSEnable, DPMSForceLevel]"
proof -
  have kp: "DPMSEnable \<notin> set (fst (key_press cfg w k b s))"
           "DPMSForceLevel \<notin> set (fst (key_press cfg w k b s))" for k b s
    using key_press_actions [of DPMSEnable cfg w k b s]
          key_press_actions [of DPMSForceLevel cfg w k b s] by auto
  have c: "count_list (fst (key_press cfg w k b s)) DPMSEnable = 0" for k b s
    using kp(1) [of k b s] by (simp add: count_list_0_iff)
  have d: "dpms_check cfg w s = (if len s = 0 then [DPMSEnable, DPMSForceLevel] else [])" for s
    using assms by (simp add: dpms_check_def)
  have 1: "count_list (fst (handle_event cfg w ev s)) DPMSEnable = (if len s = 0 then 1 else 0)"
    by (cases ev) (simp_all add: handle_event_def split_beta d c)
  have 2: "if len s = 0 then take 2 (fst (handle_event cfg w ev s)) = [DPMSEnable, DPMSForceLevel]
          else DPMSForceLevel \<notin> set (fst (handle_event cfg w ev s))"
    by (cases ev) (simp_all add: handle_event_def split_beta d kp)
  have 3: "take 3 (fst (event_loop cfg w (Delivered ev # xs) (init_state True)))
           = [XNextEvent, DPMSEnable, DPMSForceLevel]"
    by (cases ev) (simp_all add: handle_event_def split_beta d init_state_def)
  from 1 2 3 show ?thesis by simp
qed

theorem dpms_triggered_while_empty_witness:
  "dpms example_config \<and> dpms_capable (example_world [])
   \<and> count_list (fst (handle_event example_config (example_world []) OtherEvent (typed_state 0))) DPMSEnable = 1
   \<and> count_list (fst (handle_event example_config (example_world []) OtherEvent (typed_state 2))) DPMSEnable = 0"
  using dpms_triggered_while_empty [where cfg = example_config and w = "example_world []"
          and ev = OtherEvent and s = "typed_state 0"]
        dpms_triggered_while_empty [where cfg = example_config and w = "example_world []"
          and ev = OtherEvent and s = "typed_state 2"]
  by (simp add: example_config_def example_world_def typed_state_def)

text \<open>Two events that are no key presses: the collaborator is triggered twice.\<close>

theorem dpms_triggered_twice:
  "count_list (actions (main example_config (example_world [Delivered OtherEvent, Delivered OtherEvent])))
     DPMSEnable \<noteq> 1"
  by (simp add: run_defs)

subsection \<open>C5: appending to the buffer\<close>

text \<open>
  C5 says that an append is rejected exactly when the length plus the number of new
  bytes exceeds the capacity, and that the length never exceeds the capacity. The
  array has 256 bytes and the code appends when \<^verbatim>\<open>len + num < sizeof passwd\<close>, which
  keeps one byte for the terminating NUL, and only when the lookup string is not
  empty and does not start with a control character. What holds for a key that
  reaches the default case, on a buffer that satisfies the invariant: the bytes are
  appended exactly when the string is non-empty, its first byte is no control
  character and the new length stays below 256; then all of them are copied at the
  old end, the bytes before and after are unchanged and the length grows by their
  number; otherwise the state is unchanged. And after any sequence of events, and
  at the end of any run, the length is below 256.
\<close>

theorem append_within_bounds:
  assumes "lock_inv s" and "default_key k"
  shows "(let (a, s') = key_press cfg w k b s in
            a = [] \<and>
            (if b \<noteq> [] \<and> \<not> iscntrl (sint (hd b)) \<and> len s + length b < 256
             then len s' = len s + length b
                  \<and> take (len s) (passwd s') = take (len s) (passwd s)
                  \<and> take (length b) (drop (len s) (passwd s')) = b
                  \<and> drop (len s + length b) (passwd s') = drop (len s + length b) (passwd s)
                  \<and> length (passwd s') = 256
                  \<and> running s' = running s \<and> attempts s' = attempts s
             else s' = s))
       \<and> len (fst (snd (event_loop cfg w xs s))) < 256
       \<and> len (final (main cfg' w')) < 256"
proof -
  from assms(1) have n: "length (passwd s) = 256" and l: "len s < 256"
    by (simp_all add: lock_inv_def)
  have "lock_inv (fst (snd (event_loop cfg w xs s)))"
    using assms(1) by (rule event_loop_inv)
  then have "len (fst (snd (event_loop cfg w xs s))) < 256"
    by (simp add: lock_inv_def)
  moreover have "len (final (main cfg' w')) < 256"
    using main_inv [of cfg' w'] by (simp add: lock_inv_def)
  ultimately have loop: "len (fst (snd (event_loop cfg w xs s))) < 256
      \<and> len (final (main cfg' w')) < 256"
    by simp
  show ?thesis
  proof (cases "b \<noteq> [] \<and> \<not> iscntrl (sint (hd b)) \<and> len s + length b < 256")
    case True
    then have "key_press cfg w k b s =
        ([], s\<lparr>passwd := memcpy (passwd s) (len s) b, len := len s + length b\<rparr>)"
      by (simp add: key_press_default [OF assms(2)])
    with True n l loop show ?thesis
      by (simp add: memcpy_before memcpy_copied memcpy_after memcpy_length)
  next
    case False
    then have "key_press cfg w k b s = ([], s)"
      by (auto simp add: key_press_default [OF assms(2)])
    with False loop show ?thesis by simp
  qed
qed

theorem append_within_bounds_witness:
  "lock_inv (typed_state 254) \<and> lock_inv (typed_state 255) \<and> default_key 0x61
   \<and> len (snd (key_press example_config (example_world []) 0x61 [0x61] (typed_state 254))) = 255
   \<and> snd (key_press example_config (example_world []) 0x61 [0x61] (typed_state 255)) = typed_state 255"
proof -
  have i1: "lock_inv (typed_state 254)" and i2: "lock_inv (typed_state 255)"
    by (simp_all add: typed_state_inv)
  have l1: "len (typed_state 254) = 254" and l2: "len (typed_state 255) = 255"
    by (simp_all add: typed_state_def)
  from append_within_bounds [OF i1 letter_a_default,
         where cfg = example_config and w = "example_world []" and b = "[0x61]" and xs = "[]"] l1
  have "len (snd (key_press example_config (example_world []) 0x61 [0x61] (typed_state 254))) = 255"
    by (simp add: split_beta iscntrl_def)
  moreover
  from append_within_bounds [OF i2 letter_a_default,
         where cfg = example_config and w = "example_world []" and b = "[0x61]" and xs = "[]"] l2
  have "snd (key_press example_config (example_world []) 0x61 [0x61] (typed_state 255)) = typed_state 255"
    by (simp add: split_beta)
  ultimately show ?thesis using i1 i2 letter_a_default by simp
qed

text \<open>255 presses of \<^verbatim>\<open>a\<close> fill the buffer to length 255. One more byte would make 256,
  which does not exceed the capacity of 256, and yet it is dropped.\<close>

theorem append_rejected_at_capacity:
  "fst (snd (event_loop example_config (example_world []) (replicate 255 (key 0x61 [0x61])) (init_state True)))
     = typed_state 255
   \<and> \<not> (len (typed_state 255) + length [0x61 :: byte] > 256)
   \<and> key_press example_config (example_world []) 0x61 [0x61] (typed_state 255) = ([], typed_state 255)"
proof -
  have "init_state True = typed_state 0" by (simp add: init_state_def typed_state_def)
  with type_letters [of 0 255 example_config "example_world []"] type_letter_full
  show ?thesis by (simp add: typed_state_def)
qed

subsection \<open>C6: the order of the grabs and the loop\<close>

text \<open>
  C6: in every run the keyboard grab is attempted only after a pointer grab has
  succeeded, and the event loop is entered only with both grabs held. Stated on the
  calls of a run: before any attempt to grab the keyboard there is a successful
  pointer grab and no release of it, so one of the 1000 pointer attempts was
  answered with success; before any call of \<^verbatim>\<open>XNextEvent\<close> there are a successful
  pointer grab and a successful keyboard grab, and neither a release of the pointer
  nor the closing of the display.
\<close>

theorem grab_order:
  assumes run: "actions (main cfg w) = p @ a # rest"
  shows "(a = XGrabKeyboard r \<longrightarrow>
            XGrabPointer True \<in> set p \<and> XUngrabPointer \<notin> set p \<and> (\<exists>k<1000. pointer_grab w k))
       \<and> (a = XNextEvent \<longrightarrow>
            XGrabPointer True \<in> set p \<and> XGrabKeyboard True \<in> set p
            \<and> XUngrabPointer \<notin> set p \<and> XCloseDisplay \<notin> set p
            \<and> (\<exists>k<1000. pointer_grab w k) \<and> (\<exists>k<1000. keyboard_grab w k))"
proof -
  obtain tp tk tl td where sh: "actions (main cfg w) = tp @ tk @ [XSync] @ tl @ td"
     and tp: "set tp \<subseteq> {XGrabPointer True, XGrabPointer False, Usleep}"
     and tk: "set tk \<subseteq> {XGrabKeyboard True, XGrabKeyboard False, Usleep}"
     and tk_ne: "tk \<noteq> [] \<longrightarrow> XGrabPointer True \<in> set tp \<and> (\<exists>k<1000. pointer_grab w k)"
     and tl: "\<forall>a\<in>set tl. loop_action a"
     and tl_ne: "tl \<noteq> [] \<longrightarrow> XGrabPointer True \<in> set tp \<and> XGrabKeyboard True \<in> set tk
           \<and> (\<exists>k<1000. pointer_grab w k) \<and> (\<exists>k<1000. keyboard_grab w k)"
     and td: "set td \<subseteq> {XUngrabPointer, XFreePixmap, XDestroyWindow, XCloseDisplay}"
    using main_shape [of cfg w] by blast
  from run sh have eq: "tp @ (tk @ [XSync] @ tl @ td) = p @ a # rest" by simp
  have kbd: "XGrabPointer True \<in> set p \<and> XUngrabPointer \<notin> set p \<and> (\<exists>k<1000. pointer_grab w k)"
    if a: "a = XGrabKeyboard r"
  proof -
    from a tp have "a \<notin> set tp" by auto
    from split_right [OF eq this] obtain p' where
      p: "p = tp @ p'" and eq2: "tk @ ([XSync] @ tl @ td) = p' @ a # rest" by blast
    have "a \<notin> set ([XSync] @ tl @ td)" using a tl td by auto
    from split_left [OF eq2 this] obtain r' where k: "tk = p' @ a # r'" by blast
    then have "tk \<noteq> []" by simp
    with tk_ne have "XGrabPointer True \<in> set tp" "\<exists>k<1000. pointer_grab w k" by simp_all
    moreover have "XUngrabPointer \<notin> set tp" using tp by auto
    moreover have "XUngrabPointer \<notin> set p'" using tk k by auto
    ultimately show ?thesis using p by simp
  qed
  have nxt: "XGrabPointer True \<in> set p \<and> XGrabKeyboard True \<in> set p
            \<and> XUngrabPointer \<notin> set p \<and> XCloseDisplay \<notin> set p
            \<and> (\<exists>k<1000. pointer_grab w k) \<and> (\<exists>k<1000. keyboard_grab w k)"
    if a: "a = XNextEvent"
  proof -
    from a tp tk have notin: "a \<notin> set (tp @ tk @ [XSync])" by auto
    from eq have eq3: "(tp @ tk @ [XSync]) @ (tl @ td) = p @ a # rest" by simp
    from split_right [OF eq3 notin] obtain p' where
      p: "p = (tp @ tk @ [XSync]) @ p'" and eq2: "tl @ td = p' @ a # rest" by blast
    have "a \<notin> set td" using a td by auto
    from split_left [OF eq2 this] obtain r' where l: "tl = p' @ a # r'" by blast
    then have "tl \<noteq> []" by simp
    with tl_ne have "XGrabPointer True \<in> set tp" "XGrabKeyboard True \<in> set tk"
      "\<exists>k<1000. pointer_grab w k" "\<exists>k<1000. keyboard_grab w k" by simp_all
    moreover have "XUngrabPointer \<notin> set (tp @ tk @ [XSync])" "XCloseDisplay \<notin> set (tp @ tk @ [XSync])"
      using tp tk by auto
    moreover have "XUngrabPointer \<notin> set p'" "XCloseDisplay \<notin> set p'"
    proof -
      have "loop_action x" if "x \<in> set p'" for x
        using tl l that by simp
      from this [of XUngrabPointer] this [of XCloseDisplay]
      show "XUngrabPointer \<notin> set p'" "XCloseDisplay \<notin> set p'" by auto
    qed
    ultimately show ?thesis using p by simp
  qed
  from kbd nxt show ?thesis by blast
qed

theorem grab_order_witness:
  "actions (main example_config (example_world [Delivered OtherEvent]))
     = [XGrabPointer True] @ XGrabKeyboard True # [XSync, XNextEvent, DPMSEnable, DPMSForceLevel, XNextEvent]
   \<and> XGrabPointer True \<in> set [XGrabPointer True]
   \<and> actions (main example_config (example_world [Delivered OtherEvent]))
     = [XGrabPointer True, XGrabKeyboard True, XSync] @ XNextEvent # [DPMSEnable, DPMSForceLevel, XNextEvent]
   \<and> XGrabKeyboard True \<in> set [XGrabPointer True, XGrabKeyboard True, XSync]"
proof -
  let ?run = "actions (main example_config (example_world [Delivered OtherEvent]))"
  have r1: "?run = [XGrabPointer True] @ XGrabKeyboard True
      # [XSync, XNextEvent, DPMSEnable, DPMSForceLevel, XNextEvent]"
    by (simp add: run_defs)
  have r2: "?run = [XGrabPointer True, XGrabKeyboard True, XSync] @ XNextEvent
      # [DPMSEnable, DPMSForceLevel, XNextEvent]"
    by (simp add: run_defs)
  from grab_order [OF r1, of True] have "XGrabPointer True \<in> set [XGrabPointer True]"
    by blast
  moreover from grab_order [OF r2, of True]
  have "XGrabKeyboard True \<in> set [XGrabPointer True, XGrabKeyboard True, XSync]"
    by blast
  ultimately show ?thesis using r1 r2 by blast
qed

subsection \<open>C7: the outcome of an authentication attempt\<close>



subsection \<open>C8: Enter on an empty buffer\<close>

text \<open>
  C8: an Enter (main or keypad) that arrives while the length is 0 never reaches PAM.
  The iteration makes no call beyond the power-state check of every iteration;
  length, \<^verbatim>\<open>running\<close> and the attempt counter are unchanged, and the only write is the
  NUL that the handler stores at \<^verbatim>\<open>passwd[0]\<close> before it tests the length.
\<close>

theorem enter_on_empty_skips_auth:
  assumes "len s = 0" and "k = XK_Return \<or> k = XK_KP_Enter"
  shows "(let (a, s') = handle_event cfg w (KeyPress k b) s in
           a = dpms_check cfg w s \<and> filter is_authenticate a = []
           \<and> s' = s\<lparr>passwd := (passwd s)[0 := 0]\<rparr>)"
  using key_press_enter_empty [OF assms(2,1), of cfg w b]
  by (simp add: handle_event_def dpms_check_def)

theorem enter_on_empty_skips_auth_witness:
  "len (init_state True) = 0 \<and> (XK_Return = XK_Return \<or> XK_Return = XK_KP_Enter)
   \<and> handle_event example_config (example_world []) (KeyPress XK_Return [0x0D]) (init_state True)
       = ([DPMSEnable, DPMSForceLevel], init_state True)"
  using enter_on_empty_skips_auth [where s = "init_state True" and k = XK_Return
          and cfg = example_config and w = "example_world []" and b = "[0x0D]"]
  by (simp add: init_state_def dpms_check_def example_config_def example_world_def
        replicate_update_same split_beta prod_eq_iff)

subsection \<open>C9: the answers of the conversation callback\<close>

text \<open>
  C9 says that every echo-off or echo-on prompt of a conversation receives the
  candidate as its response. The callback allocates one response record per message
  at \<^verbatim>\<open>*resp\<close>, as its comment says PAM expects, but addresses the record of message
  \<open>c\<close> as \<^verbatim>\<open>resp[c]->\<close>, that is through the c-th pointer cell at \<^verbatim>\<open>resp\<close>, not as the
  c-th record of the array. PAM passes the address of a single pointer, so for a
  prompt at index 1 the code reads a cell that is not part of the object. In a
  conversation of two echo-off prompts the second prompt gets no response: the
  callback runs out of bounds.
\<close>

theorem conv_callback_second_prompt:
  "conv_callback \<lparr>calloc_result = Some 0, strdup_ok = (\<lambda>k. True)\<rparr> [0x6F, 0x6B, 0]
     [PAM_PROMPT_ECHO_OFF, PAM_PROMPT_ECHO_OFF] \<lparr>cells = [NullPtr], heap = Map.empty\<rparr>
   = Inl OutOfBounds"
  by (simp add: conv_callback_def PAM_PROMPT_ECHO_OFF_def PAM_PROMPT_ECHO_ON_def)

subsection \<open>C10: which byte the control check looks at\<close>

text \<open>
  C10: the control-character test reads the first byte of the lookup string only. A
  key that reaches the default case with a string of more than one byte, whose first
  byte is no control character and which fits (\<^verbatim>\<open>len + num < 256\<close>), is appended in
  full, whatever the later bytes are.
\<close>

theorem control_check_first_byte_only:
  assumes "lock_inv s" and "default_key k" and "1 < length b"
    and "\<not> iscntrl (sint (hd b))" and "len s + length b < 256"
  shows "(let s' = snd (key_press cfg w k b s) in
            len s' = len s + length b \<and> take (length b) (drop (len s) (passwd s')) = b)"
proof -
  from assms(3) have "b \<noteq> []" by auto
  with assms(4,5) have "key_press cfg w k b s =
      ([], s\<lparr>passwd := memcpy (passwd s) (len s) b, len := len s + length b\<rparr>)"
    by (simp add: key_press_default [OF assms(2)])
  moreover from assms(1) have "len s \<le> length (passwd s)" by (simp add: lock_inv_def)
  ultimately show ?thesis by (simp add: memcpy_copied)
qed

theorem control_check_first_byte_only_witness:
  "lock_inv (typed_state 0) \<and> default_key 0x61 \<and> 1 < length [0x61, 0x01 :: byte]
   \<and> \<not> iscntrl (sint (hd [0x61, 0x01 :: byte])) \<and> iscntrl (sint (0x01 :: byte))
   \<and> len (typed_state 0) + length [0x61, 0x01 :: byte] < 256
   \<and> len (snd (key_press example_config (example_world []) 0x61 [0x61, 0x01] (typed_state 0))) = 2
   \<and> take 2 (passwd (snd (key_press example_config (example_world []) 0x61 [0x61, 0x01] (typed_state 0))))
       = [0x61, 0x01]"
proof -
  have i: "lock_inv (typed_state 0)" by (simp add: typed_state_inv)
  have n: "1 < length [0x61, 0x01 :: byte]" by simp
  have c: "\<not> iscntrl (sint (hd [0x61, 0x01 :: byte]))" by (simp add: iscntrl_def)
  have c2: "iscntrl (sint (0x01 :: byte))" by (simp add: iscntrl_def)
  have l: "len (typed_state 0) + length [0x61, 0x01 :: byte] < 256" by (simp add: typed_state_def)
  have l0: "len (typed_state 0) = 0" by (simp add: typed_state_def)
  from control_check_first_byte_only [OF i letter_a_default n c l,
         where cfg = example_config and w = "example_world []"] l0
  have "len (snd (key_press example_config (example_world []) 0x61 [0x61, 0x01] (typed_state 0))) = 2
     \<and> take 2 (passwd (snd (key_press example_config (example_world []) 0x61 [0x61, 0x01] (typed_state 0))))
       = [0x61, 0x01]"
    by (simp add: Let_def numeral_2_eq_2)
  with i letter_a_default n c c2 l show ?thesis by blast
qed

end
